theory Spec2Isabelle
  imports Main "HOL-Library.Sublist"
begin

section \<open>Go strings\<close>

text \<open>
  A Go string is a sequence of bytes; \<^typ>\<open>string\<close> (a list of 8-bit characters) is
  that sequence. The functions of package \<^verbatim>\<open>strings\<close> that the program calls are
  written out here as the standard library computes them.
\<close>

text \<open>
  \<^verbatim>\<open>strings.Split(s, sep)\<close> for a separator of one byte: the pieces between the
  occurrences of the separator, so one piece more than there are separators
  (\<^verbatim>\<open>Split("", sep)\<close> is the one empty piece).
\<close>

fun Split :: "string \<Rightarrow> char \<Rightarrow> string list" where
  "Split [] sep = [[]]"
| "Split (c # cs) sep =
     (if c = sep then [] # Split cs sep
      else (case Split cs sep of
              piece # pieces \<Rightarrow> (c # piece) # pieces
            | [] \<Rightarrow> [[c]]))"

text \<open>
  \<^verbatim>\<open>strings.TrimSpace(s)\<close> removes the leading and the trailing runes for which
  \<^verbatim>\<open>unicode.IsSpace\<close> holds. The runes are decoded from UTF-8; a white space rune leads
  (or ends) the string exactly when its encoding is a prefix (or a suffix) of the bytes,
  since no encoding below starts with a continuation byte. The list is that of the
  encodings: tab, line feed, vertical tab, form feed, carriage return, space, U+0085,
  U+00A0, U+1680, U+2000 to U+200A, U+2028, U+2029, U+202F, U+205F and U+3000.
\<close>

definition whiteSpace :: "string list" where
  "whiteSpace =
     [[CHR 0x09], [CHR 0x0A], [CHR 0x0B], [CHR 0x0C], [CHR 0x0D], [CHR 0x20],
      [CHR 0xC2, CHR 0x85], [CHR 0xC2, CHR 0xA0],
      [CHR 0xE1, CHR 0x9A, CHR 0x80],
      [CHR 0xE2, CHR 0x80, CHR 0x80], [CHR 0xE2, CHR 0x80, CHR 0x81],
      [CHR 0xE2, CHR 0x80, CHR 0x82], [CHR 0xE2, CHR 0x80, CHR 0x83],
      [CHR 0xE2, CHR 0x80, CHR 0x84], [CHR 0xE2, CHR 0x80, CHR 0x85],
      [CHR 0xE2, CHR 0x80, CHR 0x86], [CHR 0xE2, CHR 0x80, CHR 0x87],
      [CHR 0xE2, CHR 0x80, CHR 0x88], [CHR 0xE2, CHR 0x80, CHR 0x89],
      [CHR 0xE2, CHR 0x80, CHR 0x8A],
      [CHR 0xE2, CHR 0x80, CHR 0xA8], [CHR 0xE2, CHR 0x80, CHR 0xA9],
      [CHR 0xE2, CHR 0x80, CHR 0xAF],
      [CHR 0xE2, CHR 0x81, CHR 0x9F],
      [CHR 0xE3, CHR 0x80, CHR 0x80]]"

function trimLeftRunes :: "string list \<Rightarrow> string \<Rightarrow> string" where
  "trimLeftRunes runes s =
     (case find (\<lambda>r. r \<noteq> [] \<and> prefix r s) runes of
        None \<Rightarrow> s
      | Some r \<Rightarrow> trimLeftRunes runes (drop (length r) s))"
  by pat_completeness auto
termination
proof (relation "measure (\<lambda>(runes, s). length s)")
  show "wf (measure (\<lambda>(runes, s). length s))" by simp
next
  fix runes :: "string list" and s r :: string
  assume "find (\<lambda>r. r \<noteq> [] \<and> prefix r s) runes = Some r"
  then have "r \<noteq> []" and "prefix r s"
    by (auto simp: find_Some_iff)
  then have "s \<noteq> []" by auto
  with \<open>r \<noteq> []\<close> show "((runes, drop (length r) s), (runes, s)) \<in> measure (\<lambda>(runes, s). length s)"
    by simp
qed

definition trimRightRunes :: "string list \<Rightarrow> string \<Rightarrow> string" where
  "trimRightRunes runes s = rev (trimLeftRunes (map rev runes) (rev s))"

definition TrimSpace :: "string \<Rightarrow> string" where
  "TrimSpace s = trimRightRunes whiteSpace (trimLeftRunes whiteSpace s)"







text \<open>
  The tokens that \<^verbatim>\<open>bufio.Scanner\<close> delivers with its default split function
  \<^verbatim>\<open>ScanLines\<close>: the text is cut at every line feed, a carriage return at the end of a
  line is dropped, and nothing follows the last line feed when the text ends there.
\<close>

definition dropCR :: "string \<Rightarrow> string" where
  "dropCR s = (if s \<noteq> [] \<and> last s = CHR 0x0D then butlast s else s)"

definition ScanLines :: "string \<Rightarrow> string list" where
  "ScanLines data =
     (let pieces = Split data (CHR 0x0A)
      in map dropCR (if last pieces = [] then butlast pieces else pieces))"

section \<open>Package comm: the data the DNS sub-protocol works on\<close>

datatype error =
    ErrADHostsFound
  | ErrInvalidProxyStatus
  | ErrInvalidReply
  | ErrReqTooShort
  | Foreign string

text \<open>
  \<^const>\<open>ErrADHostsFound\<close> and \<^const>\<open>ErrInvalidProxyStatus\<close> are the two error variables
  of \<^verbatim>\<open>dns.go\<close>; \<^const>\<open>ErrInvalidReply\<close> is \<^verbatim>\<open>errors.New("invalid reply")\<close> and
  \<^const>\<open>ErrReqTooShort\<close> is \<^verbatim>\<open>errors.New("ETDNS.Handle -> req is too short")\<close>.
  \<^const>\<open>Foreign\<close> is an error made outside \<^verbatim>\<open>dns.go\<close>: by the injected resolver, by
  the query sent to the relay, or by the tunnel.
\<close>

datatype DomainType = DirectDomain | ProxyDomain | UncertainDomain

datatype ProxyStatus = ProxyENABLE | ProxySMART | ProxyOther

text \<open>
  Both are integer constants in Go. \<^const>\<open>UncertainDomain\<close> stands for every value
  that is neither \<^const>\<open>DirectDomain\<close> nor \<^const>\<open>ProxyDomain\<close> (the \<^verbatim>\<open>default\<close>
  branch of \<^verbatim>\<open>smartSend\<close>), \<^const>\<open>ProxyOther\<close> for every value that is neither
  \<^const>\<open>ProxySMART\<close> nor \<^const>\<open>ProxyENABLE\<close> (the \<^verbatim>\<open>default\<close> branch of \<^verbatim>\<open>Send\<close>).
\<close>

record NetArg =
  Domain :: string
  IP :: string
  Location :: string
  DomainType :: DomainType

text \<open>
  Modelled from the spec: the struct \<^verbatim>\<open>comm.NetArg\<close> is declared outside the files at
  hand; the fields are those of the data model (domain, ip, location, domain-type) that
  \<^verbatim>\<open>dns.go\<close> reads and writes. A composite literal that names the domain only leaves
  the other fields at their zero values; the functions called on such a value read
  nothing but the domain.
\<close>

definition newNetArg :: "string \<Rightarrow> NetArg" where
  "newNetArg domain = \<lparr>Domain = domain, IP = [], Location = [], DomainType = UncertainDomain\<rparr>"

section \<open>The text cache\<close>

text \<open>
  Modelled from the spec: the cache of package \<^verbatim>\<open>cache/text\<close> is a library outside the
  files at hand. It maps a domain to a node; \<^verbatim>\<open>Get\<close> is get-or-create (an absent domain
  gets a pending node, and the caller is told that it created it), \<^verbatim>\<open>Update\<close>
  publishes the ip, \<^verbatim>\<open>Destroy\<close> fails the node, which evicts it from the cache, and
  \<^verbatim>\<open>Wait\<close> returns the published ip. A node is named by its domain.
  The model is the run of one goroutine: waiting on a node that is still pending never
  returns, which is the value \<^const>\<open>None\<close>.
\<close>

datatype CacheNode = PENDING | READY string

type_synonym TextCache = "string \<Rightarrow> CacheNode option"

definition CreateTextCache :: TextCache where
  "CreateTextCache = Map.empty"

definition TextCache_Get :: "TextCache \<Rightarrow> string \<Rightarrow> TextCache \<times> bool" where
  "TextCache_Get c key =
     (case c key of
        None \<Rightarrow> (c(key \<mapsto> PENDING), False)
      | Some node \<Rightarrow> (c, True))"

definition CacheNode_Wait :: "TextCache \<Rightarrow> string \<Rightarrow> (string \<times> error option) option" where
  "CacheNode_Wait c key =
     (case c key of
        Some (READY ip) \<Rightarrow> Some (ip, None)
      | Some PENDING \<Rightarrow> None
      | None \<Rightarrow> None)"

definition CacheNode_Update :: "TextCache \<Rightarrow> string \<Rightarrow> string \<Rightarrow> TextCache" where
  "CacheNode_Update c key ip = c(key \<mapsto> READY ip)"

definition CacheNode_Destroy :: "TextCache \<Rightarrow> string \<Rightarrow> TextCache" where
  "CacheNode_Destroy c key = c(key := None)"

section \<open>The DNS sub-protocol: state and surroundings\<close>

text \<open>
  What the code calls outside itself is recorded in a log, in the order of the calls:
  the injected resolver of the operating system, the query sent to the relay, the
  location sender, and the write on the tunnel.
\<close>

datatype event =
    LocalResolve string
  | RemoteQuery string
  | LocationQuery string
  | TunnelWrite string

text \<open>
  The state that \<^verbatim>\<open>dns.go\<close> changes: the two caches of the struct \<^verbatim>\<open>DNS\<close> (a nil
  pointer until the first use) and the log of the calls.
\<close>

record state =
  dnsRemoteCache :: "TextCache option"
  dnsLocalCache :: "TextCache option"
  calls :: "event list"

text \<open>
  What \<^verbatim>\<open>dns.go\<close> reads and calls but does not define. The answer of a call to the
  outside may depend on everything that was called before, so each takes the log.
  \<^item> \<open>HostsCache\<close> and \<open>DefaultArg_ProxyStatus\<close> are the globals of package \<^verbatim>\<open>comm\<close>.
  \<^item> \<open>DNSType\<close> and \<open>DNSResolver\<close> are the fields of the struct \<^verbatim>\<open>DNS\<close> that are
    set once; \<open>FormatEtType\<close> is \<^verbatim>\<open>comm.FormatEtType\<close>.
  \<^item> \<open>SendQueryReq\<close> is \<^verbatim>\<open>comm.SendQueryReq\<close>, \<open>ParseIP\<close> says whether
    \<^verbatim>\<open>net.ParseIP\<close> returns an address, \<open>WriteLeftStr\<close> is the write on the tunnel.
  \<^item> \<open>location_of\<close> is the location client (\<^const>\<open>None\<close> when it fails) and
    \<open>checkProxyByLocation\<close> the policy on its answer; both are defined outside the
    files at hand.
\<close>

record env =
  HostsCache :: "string \<Rightarrow> string option"
  DefaultArg_ProxyStatus :: ProxyStatus
  DNSType :: nat
  FormatEtType :: "nat \<Rightarrow> string"
  DNSResolver :: "event list \<Rightarrow> string \<Rightarrow> string \<times> error option"
  SendQueryReq :: "event list \<Rightarrow> string \<Rightarrow> string \<times> error option"
  ParseIP :: "string \<Rightarrow> bool"
  WriteLeftStr :: "event list \<Rightarrow> string \<Rightarrow> error option"
  location_of :: "event list \<Rightarrow> string \<Rightarrow> string option"
  checkProxyByLocation :: "string \<Rightarrow> bool"

section \<open>dns.go\<close>

text \<open>The calls of the logger have no effect on any result and are left out.\<close>

definition look4Hosts :: "env \<Rightarrow> string \<Rightarrow> string \<times> bool \<times> error option" where
  "look4Hosts env domain =
     (case HostsCache env domain of
        None \<Rightarrow> ([], False, None)
      | Some ip \<Rightarrow> (ip, True, if ip = ''::'' then Some ErrADHostsFound else None))"

definition Name :: "env \<Rightarrow> string" where
  "Name env = FormatEtType env (DNSType env)"

definition sendQuery :: "env \<Rightarrow> state \<Rightarrow> string \<Rightarrow> (string \<times> error option) \<times> state" where
  "sendQuery env s req =
     (let req' = Name env @ '' '' @ req
      in (SendQueryReq env (calls s) req', s\<lparr>calls := calls s @ [RemoteQuery req']\<rparr>))"

definition getCacheNodeOfRemote :: "state \<Rightarrow> string \<Rightarrow> bool \<times> state" where
  "getCacheNodeOfRemote s domain =
     (let c = (case dnsRemoteCache s of None \<Rightarrow> CreateTextCache | Some c \<Rightarrow> c);
          (c', loaded) = TextCache_Get c domain
      in (loaded, s\<lparr>dnsRemoteCache := Some c'\<rparr>))"

definition getCacheNodeOfLocal :: "state \<Rightarrow> string \<Rightarrow> bool \<times> state" where
  "getCacheNodeOfLocal s domain =
     (let c = (case dnsLocalCache s of None \<Rightarrow> CreateTextCache | Some c \<Rightarrow> c);
          (c', loaded) = TextCache_Get c domain
      in (loaded, s\<lparr>dnsLocalCache := Some c'\<rparr>))"

text \<open>
  The node that \<^verbatim>\<open>getCacheNodeOfRemote\<close> and \<^verbatim>\<open>getCacheNodeOfLocal\<close> return is named
  by the domain; the operations on it act on the cache it belongs to.
\<close>

definition remoteNode_Wait :: "state \<Rightarrow> string \<Rightarrow> (string \<times> error option) option" where
  "remoteNode_Wait s domain =
     (case dnsRemoteCache s of None \<Rightarrow> None | Some c \<Rightarrow> CacheNode_Wait c domain)"

definition remoteNode_Update :: "state \<Rightarrow> string \<Rightarrow> string \<Rightarrow> state" where
  "remoteNode_Update s domain ip =
     s\<lparr>dnsRemoteCache := map_option (\<lambda>c. CacheNode_Update c domain ip) (dnsRemoteCache s)\<rparr>"

definition remoteNode_Destroy :: "state \<Rightarrow> string \<Rightarrow> state" where
  "remoteNode_Destroy s domain =
     s\<lparr>dnsRemoteCache := map_option (\<lambda>c. CacheNode_Destroy c domain) (dnsRemoteCache s)\<rparr>"

definition localNode_Wait :: "state \<Rightarrow> string \<Rightarrow> (string \<times> error option) option" where
  "localNode_Wait s domain =
     (case dnsLocalCache s of None \<Rightarrow> None | Some c \<Rightarrow> CacheNode_Wait c domain)"

definition localNode_Update :: "state \<Rightarrow> string \<Rightarrow> string \<Rightarrow> state" where
  "localNode_Update s domain ip =
     s\<lparr>dnsLocalCache := map_option (\<lambda>c. CacheNode_Update c domain ip) (dnsLocalCache s)\<rparr>"

definition localNode_Destroy :: "state \<Rightarrow> string \<Rightarrow> state" where
  "localNode_Destroy s domain =
     s\<lparr>dnsLocalCache := map_option (\<lambda>c. CacheNode_Destroy c domain) (dnsLocalCache s)\<rparr>"

text \<open>
  A function of \<^verbatim>\<open>dns.go\<close> that takes \<^verbatim>\<open>e *comm.NetArg\<close> and returns \<^verbatim>\<open>err\<close> returns
  here the error (\<^const>\<open>None\<close> for \<^verbatim>\<open>nil\<close>), the \<^typ>\<open>NetArg\<close> as the call leaves it and
  the state; the whole is \<^const>\<open>None\<close> when the call never returns.
\<close>

type_synonym result = "(error option \<times> NetArg \<times> state) option"

definition resolvDNSByProxy' :: "env \<Rightarrow> state \<Rightarrow> NetArg \<Rightarrow> error option \<times> NetArg \<times> state" where
  "resolvDNSByProxy' env s e =
     (let ((ip, err), s') = sendQuery env s (Domain e);
          e' = e\<lparr>IP := ip\<rparr>
      in if \<not> ParseIP env (IP e') then (Some ErrInvalidReply, e', s')
         else (None, e', s'))"

definition resolvDNSByProxy :: "env \<Rightarrow> state \<Rightarrow> NetArg \<Rightarrow> result" where
  "resolvDNSByProxy env s e =
     (let (loaded, s1) = getCacheNodeOfRemote s (Domain e)
      in if loaded then
           (case remoteNode_Wait s1 (Domain e) of
              None \<Rightarrow> None
            | Some (ip, err) \<Rightarrow> Some (err, e\<lparr>IP := ip\<rparr>, s1))
         else
           (let (err, e', s2) = resolvDNSByProxy' env s1 e
            in if err \<noteq> None then Some (err, e', remoteNode_Destroy s2 (Domain e'))
               else Some (err, e', remoteNode_Update s2 (Domain e') (IP e'))))"

definition resolvDNSByLocal' :: "env \<Rightarrow> state \<Rightarrow> NetArg \<Rightarrow> error option \<times> NetArg \<times> state" where
  "resolvDNSByLocal' env s e =
     (let (ip, err) = DNSResolver env (calls s) (Domain e)
      in (err, e\<lparr>IP := ip\<rparr>, s\<lparr>calls := calls s @ [LocalResolve (Domain e)]\<rparr>))"

definition resolvDNSByLocal :: "env \<Rightarrow> state \<Rightarrow> NetArg \<Rightarrow> result" where
  "resolvDNSByLocal env s e =
     (let (loaded, s1) = getCacheNodeOfLocal s (Domain e)
      in if loaded then
           (case localNode_Wait s1 (Domain e) of
              None \<Rightarrow> None
            | Some (ip, err) \<Rightarrow> Some (err, e\<lparr>IP := ip\<rparr>, s1))
         else
           (let (err, e', s2) = resolvDNSByLocal' env s1 e
            in if err \<noteq> None then Some (err, e', localNode_Destroy s2 (Domain e'))
               else Some (err, e', localNode_Update s2 (Domain e') (IP e'))))"

text \<open>
  Modelled from the spec: the sender \<^verbatim>\<open>comm.SubSenders[comm.LOCATION]\<close> is defined
  outside the files at hand. It asks the location client for the country of the ip of
  the \<^typ>\<open>NetArg\<close> and writes it into the location; when the client fails the
  location stays as it was. \<^verbatim>\<open>resolvDNSByLocation\<close> drops the error it returns.
\<close>

definition Location_Send :: "env \<Rightarrow> state \<Rightarrow> NetArg \<Rightarrow> NetArg \<times> state" where
  "Location_Send env s e =
     ((case location_of env (calls s) (IP e) of
         None \<Rightarrow> e
       | Some country \<Rightarrow> e\<lparr>Location := country\<rparr>),
      s\<lparr>calls := calls s @ [LocationQuery (IP e)]\<rparr>)"

definition resolvDNSByLocation :: "env \<Rightarrow> state \<Rightarrow> NetArg \<Rightarrow> result" where
  "resolvDNSByLocation env s e =
     (case resolvDNSByLocal env s e of
        None \<Rightarrow> None
      | Some (err, e1, s1) \<Rightarrow>
          (let (e2, s2) = Location_Send env s1 e1
           in if \<not> checkProxyByLocation env (Location e2) then Some (None, e2, s2)
              else
                (case resolvDNSByProxy env s2 (newNetArg (Domain e2)) of
                   None \<Rightarrow> None
                 | Some (err', ne, s3) \<Rightarrow> Some (err', e2\<lparr>IP := IP ne\<rparr>, s3))))"

definition smartSend :: "env \<Rightarrow> state \<Rightarrow> NetArg \<Rightarrow> result" where
  "smartSend env s e =
     (case DomainType e of
        DirectDomain \<Rightarrow> resolvDNSByLocal env s e
      | ProxyDomain \<Rightarrow> resolvDNSByProxy env s e
      | UncertainDomain \<Rightarrow> resolvDNSByLocation env s e)"

definition proxySend :: "env \<Rightarrow> state \<Rightarrow> NetArg \<Rightarrow> result" where
  "proxySend env s e = resolvDNSByProxy env s e"

definition Send :: "env \<Rightarrow> state \<Rightarrow> NetArg \<Rightarrow> result" where
  "Send env s e =
     (let (ip, ok, err) = look4Hosts env (Domain e)
      in if err \<noteq> None then Some (err, e, s)
         else if ok then Some (None, e\<lparr>IP := ip\<rparr>, s)
         else
           (case DefaultArg_ProxyStatus env of
              ProxySMART \<Rightarrow> smartSend env s e
            | ProxyENABLE \<Rightarrow> proxySend env s e
            | ProxyOther \<Rightarrow> Some (Some ErrInvalidProxyStatus, e, s)))"

text \<open>
  \<^verbatim>\<open>Handle\<close> has no \<^typ>\<open>NetArg\<close> to hand back: it returns the error and the state, and
  the write on the tunnel is an entry of the log.
\<close>

definition Handle :: "env \<Rightarrow> state \<Rightarrow> string \<Rightarrow> (error option \<times> state) option" where
  "Handle env s req =
     (let reqs = Split req (CHR '' '')
      in if length reqs < 2 then Some (Some ErrReqTooShort, s)
         else
           (case resolvDNSByLocal env s (newNetArg (reqs ! 1)) of
              None \<Rightarrow> None
            | Some (err, e, s1) \<Rightarrow>
                if err \<noteq> None then Some (err, s1)
                else Some (WriteLeftStr env (calls s1) (IP e),
                           s1\<lparr>calls := calls s1 @ [TunnelWrite (IP e)]\<rparr>)))"



section \<open>controler.go: the configuration file\<close>

text \<open>
  \<^verbatim>\<open>getKeyValues\<close> reads a line \<^verbatim>\<open>key = value\<close> at its first \<^verbatim>\<open>=\<close>: the pieces
  after the second are joined to the value again, each behind a \<^verbatim>\<open>=\<close>, key and value
  are trimmed, the key is appended to the list of keys and the map is updated. A line
  without \<^verbatim>\<open>=\<close> is skipped.
\<close>

fun appendItems :: "string \<Rightarrow> string list \<Rightarrow> string" where
  "appendItems value [] = value"
| "appendItems value (item # items) = appendItems (value @ ''='' @ item) items"

fun getKeyValues_loop ::
  "(string \<Rightarrow> string option) \<Rightarrow> string list \<Rightarrow> string list
    \<Rightarrow> (string \<Rightarrow> string option) \<times> string list" where
  "getKeyValues_loop keyValues keys [] = (keyValues, keys)"
| "getKeyValues_loop keyValues keys (line # lines) =
     (let keyValue = Split line (CHR ''='')
      in if length keyValue \<ge> 2 then
           (let value = appendItems (keyValue ! 1) (drop 2 keyValue);
                key = TrimSpace (keyValue ! 0);
                keys = keys @ [key];
                value = TrimSpace value
            in getKeyValues_loop (keyValues(key \<mapsto> value)) keys lines)
         else getKeyValues_loop keyValues keys lines)"

definition getKeyValues :: "string list \<Rightarrow> (string \<Rightarrow> string option) \<times> string list" where
  "getKeyValues lines = getKeyValues_loop Map.empty [] lines"

fun exportKeyValues_loop :: "(string \<Rightarrow> string option) \<Rightarrow> string \<Rightarrow> string list \<Rightarrow> string" where
  "exportKeyValues_loop keyValues result [] = result"
| "exportKeyValues_loop keyValues result (key # keys) =
     exportKeyValues_loop keyValues
       (result @ key @ '' = '' @ (case keyValues key of None \<Rightarrow> [] | Some v \<Rightarrow> v)
          @ [CHR 0x0D, CHR 0x0A])
       keys"

definition exportKeyValues :: "(string \<Rightarrow> string option) \<Rightarrow> string list \<Rightarrow> string" where
  "exportKeyValues keyValues keys = exportKeyValues_loop keyValues [] keys"

section \<open>controler.go: the hosts files\<close>






fun readHosts_loop :: "(string \<Rightarrow> string option) \<Rightarrow> string list \<Rightarrow> (string \<Rightarrow> string option)" where
  "readHosts_loop hostsCache [] = hostsCache"
| "readHosts_loop hostsCache (host # hosts) =
     (let items = Split host (CHR '' '')
      in if length items \<ge> 2 then
           (let domain = TrimSpace (items ! 0);
                ip = TrimSpace (items ! 1)
            in if domain \<noteq> [] \<and> ip \<noteq> [] then readHosts_loop (hostsCache(domain \<mapsto> ip)) hosts
               else readHosts_loop hostsCache hosts)
         else readHosts_loop hostsCache hosts)"



section \<open>A sample run\<close>

text \<open>
  The struct \<^verbatim>\<open>DNS\<close> before its first use, and surroundings in which the resolver of
  the operating system knows two domains, the relay answers for one, and the location
  policy sends \<^verbatim>\<open>US\<close> through the proxy. The theorems below are applied to them.
\<close>

definition newDNS :: state where
  "newDNS = \<lparr>dnsRemoteCache = None, dnsLocalCache = None, calls = []\<rparr>"

definition demo_env :: "(string \<Rightarrow> string option) \<Rightarrow> ProxyStatus \<Rightarrow> env" where
  "demo_env hosts status =
     \<lparr>HostsCache = hosts,
      DefaultArg_ProxyStatus = status,
      DNSType = 0,
      FormatEtType = (\<lambda>t. ''DNS''),
      DNSResolver = (\<lambda>log domain.
         if domain = ''example.org'' then (''93.0.0.1'', None)
         else if domain = ''example.cn'' then (''1.2.4.8'', None)
         else ([], Some (Foreign ''no such host''))),
      SendQueryReq = (\<lambda>log req.
         if req = ''DNS example.org'' then (''10.9.8.7'', None)
         else (''not found'', None)),
      ParseIP = (\<lambda>ip. ip = ''93.0.0.1'' \<or> ip = ''1.2.4.8'' \<or> ip = ''10.9.8.7''),
      WriteLeftStr = (\<lambda>log str. None),
      location_of = (\<lambda>log ip.
         if ip = ''93.0.0.1'' then Some ''US''
         else if ip = ''1.2.4.8'' then Some ''CN''
         else None),
      checkProxyByLocation = (\<lambda>location. location = ''US'')\<rparr>"


section \<open>What the resolving functions leave alone\<close>

lemma resolvDNSByLocal_cases:
  assumes "resolvDNSByLocal env s e = Some (err, e1, s1)"
  shows "Domain e1 = Domain e \<and> Location e1 = Location e \<and> DomainType e1 = DomainType e
     \<and> dnsRemoteCache s1 = dnsRemoteCache s
     \<and> ((\<exists>c ip. dnsLocalCache s = Some c \<and> c (Domain e) = Some (READY ip)
            \<and> err = None \<and> IP e1 = ip \<and> s1 = s)
        \<or> ((\<forall>c. dnsLocalCache s = Some c \<longrightarrow> c (Domain e) = None)
            \<and> (IP e1, err) = DNSResolver env (calls s) (Domain e)
            \<and> calls s1 = calls s @ [LocalResolve (Domain e)]))"
  using assms
  by (auto simp: resolvDNSByLocal_def getCacheNodeOfLocal_def TextCache_Get_def
      localNode_Wait_def CacheNode_Wait_def resolvDNSByLocal'_def localNode_Destroy_def
      localNode_Update_def CreateTextCache_def Let_def
      split: option.splits CacheNode.splits prod.splits if_splits)


lemma resolvDNSByProxy_miss:
  assumes "case dnsRemoteCache s of None \<Rightarrow> True | Some c \<Rightarrow> c (Domain e) = None"
    and "SendQueryReq env (calls s) (Name env @ '' '' @ Domain e) = (ip, qerr)"
  shows "resolvDNSByProxy env s e =
     (let c = (case dnsRemoteCache s of None \<Rightarrow> CreateTextCache | Some c \<Rightarrow> c);
          log = calls s @ [RemoteQuery (Name env @ '' '' @ Domain e)]
      in if ParseIP env ip
         then Some (None, e\<lparr>IP := ip\<rparr>, s\<lparr>dnsRemoteCache := Some (c(Domain e \<mapsto> READY ip)), calls := log\<rparr>)
         else Some (Some ErrInvalidReply, e\<lparr>IP := ip\<rparr>, s\<lparr>dnsRemoteCache := Some c, calls := log\<rparr>))"
  using assms
  by (auto simp: resolvDNSByProxy_def getCacheNodeOfRemote_def TextCache_Get_def
      resolvDNSByProxy'_def sendQuery_def remoteNode_Destroy_def remoteNode_Update_def
      CacheNode_Destroy_def CacheNode_Update_def CreateTextCache_def Let_def fun_upd_idem
      split: option.splits)

section \<open>The hosts overlay comes first\<close>

text \<open>
  Claim C2. For a domain that the hosts overlay maps to an ip other than \<^verbatim>\<open>::\<close>,
  \<^const>\<open>Send\<close> returns no error, the \<^typ>\<open>NetArg\<close> with its ip set to the value of the
  overlay, and the state as it was: neither cache is touched and the log of calls is the
  same, so neither the resolver of the operating system nor the relay is asked. The
  surroundings are arbitrary, so this holds for every proxy-status.
\<close>

theorem Send_hosts_precedence:
  assumes "HostsCache env (Domain e) = Some ip" and "ip \<noteq> ''::''"
  shows "Send env s e = Some (None, e\<lparr>IP := ip\<rparr>, s)"
  using assms by (simp add: Send_def look4Hosts_def)

theorem Send_hosts_precedence_witness:
  "Send (demo_env [''example.org'' \<mapsto> ''127.0.0.1''] ProxySMART) newDNS (newNetArg ''example.org'')
     = Some (None, (newNetArg ''example.org'')\<lparr>IP := ''127.0.0.1''\<rparr>, newDNS)
   \<and> Send (demo_env [''example.org'' \<mapsto> ''127.0.0.1''] ProxyENABLE) newDNS (newNetArg ''example.org'')
     = Some (None, (newNetArg ''example.org'')\<lparr>IP := ''127.0.0.1''\<rparr>, newDNS)"
  using Send_hosts_precedence [of "demo_env [''example.org'' \<mapsto> ''127.0.0.1''] ProxySMART" "newNetArg ''example.org''" "''127.0.0.1''" newDNS]
    Send_hosts_precedence [of "demo_env [''example.org'' \<mapsto> ''127.0.0.1''] ProxyENABLE" "newNetArg ''example.org''" "''127.0.0.1''" newDNS]
  by (simp add: demo_env_def newNetArg_def)

text \<open>
  Claim C3. When the overlay maps the domain to \<^verbatim>\<open>::\<close>, \<^const>\<open>Send\<close> returns
  \<^const>\<open>ErrADHostsFound\<close>; when it maps the domain to any other value, \<^const>\<open>Send\<close>
  returns without an error, so not with this one.
\<close>

theorem Send_ErrADHostsFound_iff_sentinel:
  "(HostsCache env (Domain e) = Some ''::'' \<longrightarrow>
      map_option fst (Send env s e) = Some (Some ErrADHostsFound))
   \<and> (\<forall>ip. HostsCache env (Domain e) = Some ip \<and> ip \<noteq> ''::'' \<longrightarrow>
      map_option fst (Send env s e) = Some None)"
  by (simp add: Send_def look4Hosts_def)

theorem Send_ErrADHostsFound_iff_sentinel_witness:
  "map_option fst (Send (demo_env [''ads.example'' \<mapsto> ''::''] ProxySMART) newDNS (newNetArg ''ads.example''))
     = Some (Some ErrADHostsFound)
   \<and> map_option fst (Send (demo_env [''ads.example'' \<mapsto> ''0.0.0.0''] ProxySMART) newDNS (newNetArg ''ads.example''))
     = Some None"
  using Send_ErrADHostsFound_iff_sentinel
      [of "demo_env [''ads.example'' \<mapsto> ''::''] ProxySMART" "newNetArg ''ads.example''" newDNS]
    Send_ErrADHostsFound_iff_sentinel
      [of "demo_env [''ads.example'' \<mapsto> ''0.0.0.0''] ProxySMART" "newNetArg ''ads.example''" newDNS]
  by (simp add: demo_env_def newNetArg_def)

text \<open>
  Claim C9. When \<^const>\<open>Send\<close> fails with \<^const>\<open>ErrADHostsFound\<close> for a domain that the
  overlay blocks, the \<^typ>\<open>NetArg\<close> it hands back is the one it was given (its ip is
  not set to \<^verbatim>\<open>::\<close> or to anything else), and the state is unchanged too.
\<close>

theorem Send_ErrADHostsFound_frame:
  assumes "HostsCache env (Domain e) = Some ''::''"
  shows "Send env s e = Some (Some ErrADHostsFound, e, s)"
  using assms by (simp add: Send_def look4Hosts_def)

theorem Send_ErrADHostsFound_frame_witness:
  "Send (demo_env [''ads.example'' \<mapsto> ''::''] ProxyENABLE) newDNS
      \<lparr>Domain = ''ads.example'', IP = ''10.0.0.1'', Location = ''CN'', DomainType = ProxyDomain\<rparr>
     = Some (Some ErrADHostsFound,
         \<lparr>Domain = ''ads.example'', IP = ''10.0.0.1'', Location = ''CN'', DomainType = ProxyDomain\<rparr>,
         newDNS)"
  using Send_ErrADHostsFound_frame
      [of "demo_env [''ads.example'' \<mapsto> ''::''] ProxyENABLE"
          "\<lparr>Domain = ''ads.example'', IP = ''10.0.0.1'', Location = ''CN'', DomainType = ProxyDomain\<rparr>" newDNS]
  by (simp add: demo_env_def)

section \<open>Smart mode, uncertain domain\<close>



text \<open>
  Claim C10, amended. When the local path returns an error and the location that is then
  looked up is not flagged, \<^const>\<open>resolvDNSByLocation\<close> returns no error: the error of
  the local path is dropped. The ip of the \<^typ>\<open>NetArg\<close> is the string that the failing
  resolver returned beside its error (\<^verbatim>\<open>_resolvDNSByLocal\<close> assigns it before the error
  is looked at), the empty string when the resolver returned none.
\<close>

theorem resolvDNSByLocation_drops_local_error:
  assumes "resolvDNSByLocal env s e = Some (Some err, e1, s1)"
    and "Location_Send env s1 e1 = (e2, s2)"
    and "\<not> checkProxyByLocation env (Location e2)"
  shows "resolvDNSByLocation env s e = Some (None, e2, s2)
     \<and> IP e2 = fst (DNSResolver env (calls s) (Domain e))
     \<and> snd (DNSResolver env (calls s) (Domain e)) = Some err"
proof -
  have run: "resolvDNSByLocation env s e = Some (None, e2, s2)"
    using assms by (simp add: resolvDNSByLocation_def)
  have "IP e2 = IP e1"
    using assms(2) by (auto simp: Location_Send_def split: option.splits)
  moreover have "(IP e1, Some err) = DNSResolver env (calls s) (Domain e)"
    using resolvDNSByLocal_cases [OF assms(1)] by auto
  ultimately show ?thesis
    using run by (metis fst_conv snd_conv)
qed

theorem resolvDNSByLocation_drops_local_error_witness:
  "resolvDNSByLocation (demo_env Map.empty ProxySMART) newDNS
      \<lparr>Domain = ''example.com'', IP = ''10.0.0.1'', Location = ''CN'', DomainType = UncertainDomain\<rparr>
     = Some (None,
         \<lparr>Domain = ''example.com'', IP = [], Location = ''CN'', DomainType = UncertainDomain\<rparr>,
         \<lparr>dnsRemoteCache = None, dnsLocalCache = Some Map.empty,
            calls = [LocalResolve ''example.com'', LocationQuery []]\<rparr>)
   \<and> DNSResolver (demo_env Map.empty ProxySMART) [] ''example.com''
     = ([], Some (Foreign ''no such host''))"
proof -
  let ?env = "demo_env Map.empty ProxySMART"
  let ?e = "\<lparr>Domain = ''example.com'', IP = ''10.0.0.1'', Location = ''CN'', DomainType = UncertainDomain\<rparr>"
  let ?s1 = "\<lparr>dnsRemoteCache = None, dnsLocalCache = Some Map.empty,
      calls = [LocalResolve ''example.com'']\<rparr>"
  have l: "resolvDNSByLocal ?env newDNS ?e = Some (Some (Foreign ''no such host''), ?e\<lparr>IP := []\<rparr>, ?s1)"
    by (simp add: demo_env_def newDNS_def
      resolvDNSByLocal_def getCacheNodeOfLocal_def TextCache_Get_def CreateTextCache_def
      resolvDNSByLocal'_def localNode_Destroy_def CacheNode_Destroy_def)
  have q: "Location_Send ?env ?s1 (?e\<lparr>IP := []\<rparr>)
      = (?e\<lparr>IP := []\<rparr>, ?s1\<lparr>calls := [LocalResolve ''example.com'', LocationQuery []]\<rparr>)"
    by (simp add: demo_env_def Location_Send_def)
  have u: "\<not> checkProxyByLocation ?env (Location (?e\<lparr>IP := []\<rparr>))"
    by (simp add: demo_env_def)
  show ?thesis
    using resolvDNSByLocation_drops_local_error [OF l q u]
    by (simp add: demo_env_def)
qed

text \<open>
  Claim C10 as stated, with the ip left unset, fails for a resolver that returns a string
  beside its error: the \<^typ>\<open>NetArg\<close> comes with no ip, the local path fails with
  \<^verbatim>\<open>timeout\<close>, the location \<^verbatim>\<open>CN\<close> is not flagged, and \<^const>\<open>resolvDNSByLocation\<close>
  returns no error and the ip \<^verbatim>\<open>1.2.4.8\<close>.
\<close>

theorem resolvDNSByLocation_ip_counterexample:
  "IP (newNetArg ''example.com'') = []
   \<and> map_option (\<lambda>(err, e, s). (err, IP e))
        (resolvDNSByLocal
           ((demo_env Map.empty ProxySMART)
              \<lparr>DNSResolver := \<lambda>log domain. (''1.2.4.8'', Some (Foreign ''timeout''))\<rparr>)
           newDNS (newNetArg ''example.com''))
      = Some (Some (Foreign ''timeout''), ''1.2.4.8'')
   \<and> checkProxyByLocation
        ((demo_env Map.empty ProxySMART)
           \<lparr>DNSResolver := \<lambda>log domain. (''1.2.4.8'', Some (Foreign ''timeout''))\<rparr>)
        ''CN'' = False
   \<and> map_option (\<lambda>(err, e, s). (err, IP e, Location e, calls s))
        (resolvDNSByLocation
           ((demo_env Map.empty ProxySMART)
              \<lparr>DNSResolver := \<lambda>log domain. (''1.2.4.8'', Some (Foreign ''timeout''))\<rparr>)
           newDNS (newNetArg ''example.com''))
      = Some (None, ''1.2.4.8'', ''CN'', [LocalResolve ''example.com'', LocationQuery ''1.2.4.8''])"
  by (simp add: demo_env_def newDNS_def newNetArg_def resolvDNSByLocation_def Location_Send_def
      resolvDNSByLocal_def getCacheNodeOfLocal_def TextCache_Get_def CreateTextCache_def
      resolvDNSByLocal'_def localNode_Destroy_def)

section \<open>A reply of the relay that is no ip\<close>

text \<open>
  Claim C4. When the remote cache has no node for the domain, so that the remote path
  queries the relay, and the reply does not parse as an ip, \<^const>\<open>resolvDNSByProxy\<close>
  returns \<^const>\<open>ErrInvalidReply\<close>. The relay was queried once (no retry), and the node
  that was created is destroyed, not published: the cache has no node for the domain
  afterwards. So the next resolution of the same domain queries the relay again, and
  its outcome is that of the new reply.
\<close>

theorem resolvDNSByProxy_invalid_reply:
  assumes miss: "case dnsRemoteCache s of None \<Rightarrow> True | Some c \<Rightarrow> c (Domain e) = None"
    and reply: "SendQueryReq env (calls s) (Name env @ '' '' @ Domain e) = (ip, qerr)"
    and invalid: "\<not> ParseIP env ip"
  shows "\<exists>s'. resolvDNSByProxy env s e = Some (Some ErrInvalidReply, e\<lparr>IP := ip\<rparr>, s')
     \<and> calls s' = calls s @ [RemoteQuery (Name env @ '' '' @ Domain e)]
     \<and> (\<exists>c. dnsRemoteCache s' = Some c \<and> c (Domain e) = None)
     \<and> dnsLocalCache s' = dnsLocalCache s
     \<and> (\<forall>e2. Domain e2 = Domain e \<longrightarrow>
          (\<exists>err2 e2' s''. resolvDNSByProxy env s' e2 = Some (err2, e2', s'')
             \<and> calls s'' = calls s' @ [RemoteQuery (Name env @ '' '' @ Domain e)]
             \<and> (IP e2', if ParseIP env (IP e2') then None else Some ErrInvalidReply) =
                 (fst (SendQueryReq env (calls s') (Name env @ '' '' @ Domain e)), err2)))"
proof -
  define c where "c = (case dnsRemoteCache s of None \<Rightarrow> CreateTextCache | Some c \<Rightarrow> c)"
  define s' where "s' = s\<lparr>dnsRemoteCache := Some c, calls := calls s @ [RemoteQuery (Name env @ '' '' @ Domain e)]\<rparr>"
  have c: "c (Domain e) = None"
    using miss by (auto simp: c_def CreateTextCache_def split: option.splits)
  have first: "resolvDNSByProxy env s e = Some (Some ErrInvalidReply, e\<lparr>IP := ip\<rparr>, s')"
    using resolvDNSByProxy_miss [OF miss reply] invalid by (simp add: c_def s'_def Let_def)
  have again: "\<exists>err2 e2' s''. resolvDNSByProxy env s' e2 = Some (err2, e2', s'')
             \<and> calls s'' = calls s' @ [RemoteQuery (Name env @ '' '' @ Domain e)]
             \<and> (IP e2', if ParseIP env (IP e2') then None else Some ErrInvalidReply) =
                 (fst (SendQueryReq env (calls s') (Name env @ '' '' @ Domain e)), err2)"
    if "Domain e2 = Domain e" for e2
  proof -
    obtain ip2 qerr2 where r: "SendQueryReq env (calls s') (Name env @ '' '' @ Domain e2) = (ip2, qerr2)"
      by (cases "SendQueryReq env (calls s') (Name env @ '' '' @ Domain e2)")
    have m: "case dnsRemoteCache s' of None \<Rightarrow> True | Some c \<Rightarrow> c (Domain e2) = None"
      using c that by (simp add: s'_def)
    show ?thesis
      using resolvDNSByProxy_miss [OF m r] r that by (auto simp: Let_def)
  qed
  show ?thesis
    using first c again by (intro exI [of _ s']) (simp add: s'_def)
qed

theorem resolvDNSByProxy_invalid_reply_witness:
  "map_option (\<lambda>(err, e, s). (err, IP e, calls s, map_option (\<lambda>c. c ''example.com'') (dnsRemoteCache s)))
     (resolvDNSByProxy (demo_env Map.empty ProxyENABLE) newDNS (newNetArg ''example.com''))
     = Some (Some ErrInvalidReply, ''not found'', [RemoteQuery ''DNS example.com''], Some None)"
proof -
  let ?env = "demo_env Map.empty ProxyENABLE"
  have miss: "case dnsRemoteCache newDNS of None \<Rightarrow> True | Some c \<Rightarrow> c (Domain (newNetArg ''example.com'')) = None"
    by (simp add: newDNS_def)
  have reply: "SendQueryReq ?env (calls newDNS) (Name ?env @ '' '' @ Domain (newNetArg ''example.com''))
      = (''not found'', None)"
    by (simp add: demo_env_def Name_def newNetArg_def)
  have invalid: "\<not> ParseIP ?env ''not found''"
    by (simp add: demo_env_def)
  show ?thesis
    using resolvDNSByProxy_invalid_reply [OF miss reply invalid]
    by (auto simp: newNetArg_def newDNS_def Name_def demo_env_def)
qed

section \<open>The inbound request\<close>

text \<open>
  Claim C6. For a request of at least two fields separated by a space,
  \<^const>\<open>Handle\<close> resolves the second field by the local path; an error of the local path
  is returned, and on success the ip is written on the tunnel. Whatever it returns, the
  remote cache is as it was and no call that it made is a query to the relay. For a
  request of fewer than two fields it returns an error and the state is unchanged: no
  resolution and no write.
\<close>

theorem Handle_local_only:
  "(2 \<le> length (Split req (CHR '' '')) \<longrightarrow>
      Handle env s req =
        (case resolvDNSByLocal env s (newNetArg (Split req (CHR '' '') ! 1)) of
           None \<Rightarrow> None
         | Some (Some err, e, s1) \<Rightarrow> Some (Some err, s1)
         | Some (None, e, s1) \<Rightarrow>
             Some (WriteLeftStr env (calls s1) (IP e), s1\<lparr>calls := calls s1 @ [TunnelWrite (IP e)]\<rparr>))
      \<and> (\<forall>err s'. Handle env s req = Some (err, s') \<longrightarrow>
            dnsRemoteCache s' = dnsRemoteCache s
            \<and> (\<exists>new. calls s' = calls s @ new \<and> (\<forall>q. RemoteQuery q \<notin> set new))))
   \<and> (length (Split req (CHR '' '')) < 2 \<longrightarrow> Handle env s req = Some (Some ErrReqTooShort, s))"
proof -
  have a: "Handle env s req =
        (case resolvDNSByLocal env s (newNetArg (Split req (CHR '' '') ! 1)) of
           None \<Rightarrow> None
         | Some (Some err, e, s1) \<Rightarrow> Some (Some err, s1)
         | Some (None, e, s1) \<Rightarrow>
             Some (WriteLeftStr env (calls s1) (IP e), s1\<lparr>calls := calls s1 @ [TunnelWrite (IP e)]\<rparr>))"
    if "2 \<le> length (Split req (CHR '' ''))"
    using that by (auto simp: Handle_def Let_def split: option.splits)
  have b: "dnsRemoteCache s' = dnsRemoteCache s
            \<and> (\<exists>new. calls s' = calls s @ new \<and> (\<forall>q. RemoteQuery q \<notin> set new))"
    if "2 \<le> length (Split req (CHR '' ''))" and h: "Handle env s req = Some (err, s')" for err s'
  proof (cases "resolvDNSByLocal env s (newNetArg (Split req (CHR '' '') ! 1))")
    case None
    then show ?thesis using a [OF that(1)] h by simp
  next
    case (Some r)
    obtain err1 e1 s1 where r: "r = (err1, e1, s1)" by (cases r)
    note loc = resolvDNSByLocal_cases [OF Some [unfolded r]]
    show ?thesis
      using a [OF that(1)] h Some r loc
      by (cases err1) auto
  qed
  have c: "Handle env s req = Some (Some ErrReqTooShort, s)" if "length (Split req (CHR '' '')) < 2"
    using that by (simp add: Handle_def Let_def)
  show ?thesis using a b c by blast
qed

theorem Handle_local_only_witness:
  "map_option (\<lambda>(err, s). (err, calls s, dnsRemoteCache s = None))
      (Handle (demo_env Map.empty ProxyENABLE) newDNS ''DNS example.org'')
     = Some (None, [LocalResolve ''example.org'', TunnelWrite ''93.0.0.1''], True)
   \<and> Handle (demo_env Map.empty ProxyENABLE) newDNS ''DNS'' = Some (Some ErrReqTooShort, newDNS)"
proof -
  let ?env = "demo_env Map.empty ProxyENABLE"
  have l: "resolvDNSByLocal ?env newDNS (newNetArg ''example.org'')
     = Some (None, (newNetArg ''example.org'')\<lparr>IP := ''93.0.0.1''\<rparr>,
         \<lparr>dnsRemoteCache = None, dnsLocalCache = Some [''example.org'' \<mapsto> READY ''93.0.0.1''],
          calls = [LocalResolve ''example.org'']\<rparr>)"
    by (simp add: demo_env_def newDNS_def newNetArg_def
      resolvDNSByLocal_def getCacheNodeOfLocal_def TextCache_Get_def CreateTextCache_def
      resolvDNSByLocal'_def localNode_Update_def CacheNode_Update_def)
  show ?thesis
    using Handle_local_only [of "''DNS example.org''" ?env newDNS]
      Handle_local_only [of "''DNS''" ?env newDNS] l
    by (simp add: demo_env_def)
qed

section \<open>Trimming and splitting\<close>

text \<open>
  A string is trimmed when no white space rune leads it and none ends it; that is what
  \<^const>\<open>TrimSpace\<close> returns, and what it leaves as it is.
\<close>

declare trimLeftRunes.simps [simp del]

definition noLeadingRune :: "string list \<Rightarrow> string \<Rightarrow> bool" where
  "noLeadingRune runes s = (\<forall>r \<in> set runes. r \<noteq> [] \<longrightarrow> \<not> prefix r s)"

definition noTrailingRune :: "string list \<Rightarrow> string \<Rightarrow> bool" where
  "noTrailingRune runes s = (\<forall>r \<in> set runes. r \<noteq> [] \<longrightarrow> \<not> suffix r s)"

lemma find_None_noLeadingRune:
  "find (\<lambda>r. r \<noteq> [] \<and> prefix r s) runes = None \<longleftrightarrow> noLeadingRune runes s"
  by (auto simp: find_None_iff noLeadingRune_def)

lemma trimLeftRunes_id: "noLeadingRune runes s \<Longrightarrow> trimLeftRunes runes s = s"
  by (subst trimLeftRunes.simps) (simp add: find_None_noLeadingRune [symmetric])

lemma trimLeftRunes_noLeadingRune: "noLeadingRune runes (trimLeftRunes runes s)"
proof (induction runes s rule: trimLeftRunes.induct)
  case (1 runes s)
  show ?case
  proof (cases "find (\<lambda>r. r \<noteq> [] \<and> prefix r s) runes")
    case None
    then have "trimLeftRunes runes s = s"
      by (subst trimLeftRunes.simps) simp
    then show ?thesis
      using None find_None_noLeadingRune by metis
  next
    case (Some r)
    then show ?thesis
      using "1.IH" [OF Some] by (subst trimLeftRunes.simps) simp
  qed
qed

lemma trimLeftRunes_suffix: "suffix (trimLeftRunes runes s) s"
proof (induction runes s rule: trimLeftRunes.induct)
  case (1 runes s)
  show ?case
  proof (cases "find (\<lambda>r. r \<noteq> [] \<and> prefix r s) runes")
    case None
    then show ?thesis
      by (subst trimLeftRunes.simps) simp
  next
    case (Some r)
    have "suffix (trimLeftRunes runes (drop (length r) s)) (drop (length r) s)"
      using "1.IH" [OF Some] .
    then have "suffix (trimLeftRunes runes (drop (length r) s)) s"
      using suffix_drop suffix_order.trans by blast
    then show ?thesis
      using Some by (subst trimLeftRunes.simps) simp
  qed
qed

lemma trimLeftRunes_step:
  assumes "r \<in> set runes" and "r \<noteq> []" and "prefix r s"
  shows "\<exists>r' \<in> set runes. r' \<noteq> [] \<and> prefix r' s
     \<and> trimLeftRunes runes s = trimLeftRunes runes (drop (length r') s)"
proof (cases "find (\<lambda>r. r \<noteq> [] \<and> prefix r s) runes")
  case None
  then show ?thesis
    using assms by (auto simp: find_None_iff)
next
  case (Some r')
  then have "r' \<in> set runes \<and> r' \<noteq> [] \<and> prefix r' s"
    by (auto simp: find_Some_iff)
  moreover have "trimLeftRunes runes s = trimLeftRunes runes (drop (length r') s)"
    using Some by (subst trimLeftRunes.simps) simp
  ultimately show ?thesis by blast
qed

lemma noTrailingRune_rev: "noTrailingRune runes s \<longleftrightarrow> noLeadingRune (map rev runes) (rev s)"
  by (auto simp: noTrailingRune_def noLeadingRune_def suffix_to_prefix)

lemma trimRightRunes_id: "noTrailingRune runes s \<Longrightarrow> trimRightRunes runes s = s"
  by (simp add: trimRightRunes_def noTrailingRune_rev trimLeftRunes_id)

lemma trimRightRunes_noTrailingRune: "noTrailingRune runes (trimRightRunes runes s)"
  by (simp add: trimRightRunes_def noTrailingRune_rev trimLeftRunes_noLeadingRune)

lemma trimRightRunes_prefix: "prefix (trimRightRunes runes s) s"
  using trimLeftRunes_suffix [of "map rev runes" "rev s"]
  by (simp add: trimRightRunes_def suffix_to_prefix)

lemma trimRightRunes_noLeadingRune:
  "noLeadingRune runes s \<Longrightarrow> noLeadingRune runes (trimRightRunes runes s)"
  unfolding noLeadingRune_def
  using trimRightRunes_prefix prefix_order.trans by blast

definition trimmed :: "string \<Rightarrow> bool" where
  "trimmed s \<longleftrightarrow> noLeadingRune whiteSpace s \<and> noTrailingRune whiteSpace s"

lemma TrimSpace_trimmed: "trimmed (TrimSpace s)"
  by (simp add: trimmed_def TrimSpace_def trimRightRunes_noTrailingRune
      trimRightRunes_noLeadingRune trimLeftRunes_noLeadingRune)

lemma TrimSpace_id: "trimmed s \<Longrightarrow> TrimSpace s = s"
  by (simp add: trimmed_def TrimSpace_def trimLeftRunes_id trimRightRunes_id)

lemma set_TrimSpace: "set (TrimSpace s) \<subseteq> set s"
proof -
  have "set (trimRightRunes whiteSpace (trimLeftRunes whiteSpace s)) \<subseteq> set (trimLeftRunes whiteSpace s)"
    using trimRightRunes_prefix set_mono_prefix by blast
  moreover have "set (trimLeftRunes whiteSpace s) \<subseteq> set s"
    using trimLeftRunes_suffix set_mono_suffix by blast
  ultimately show ?thesis by (auto simp: TrimSpace_def)
qed

lemma whiteSpace_last_space:
  "r \<in> set whiteSpace \<Longrightarrow> last r = CHR '' '' \<Longrightarrow> r = '' ''"
  by (auto simp: whiteSpace_def)

lemma whiteSpace_hd_space:
  "r \<in> set whiteSpace \<Longrightarrow> hd r = CHR '' '' \<Longrightarrow> r = '' ''"
  by (auto simp: whiteSpace_def)

lemma space_in_whiteSpace: "'' '' \<in> set whiteSpace"
  by (simp add: whiteSpace_def)

lemma TrimSpace_space_Cons:
  assumes "trimmed v"
  shows "TrimSpace (CHR '' '' # v) = v"
proof -
  obtain r where r: "r \<in> set whiteSpace" "r \<noteq> []" "prefix r (CHR '' '' # v)"
    and step: "trimLeftRunes whiteSpace (CHR '' '' # v)
      = trimLeftRunes whiteSpace (drop (length r) (CHR '' '' # v))"
    using trimLeftRunes_step [of "'' ''" whiteSpace "CHR '' '' # v"] space_in_whiteSpace
    by auto
  have "hd r = CHR '' ''"
    using r(2,3) by (cases r) auto
  then have "r = '' ''"
    using whiteSpace_hd_space r(1) by blast
  then have "trimLeftRunes whiteSpace (CHR '' '' # v) = trimLeftRunes whiteSpace v"
    using step by simp
  then show ?thesis
    using assms by (simp add: TrimSpace_def trimmed_def trimLeftRunes_id trimRightRunes_id)
qed

lemma TrimSpace_snoc_space:
  assumes "trimmed k"
  shows "TrimSpace (k @ '' '') = k"
proof -
  have lead: "noLeadingRune whiteSpace (k @ '' '')" if "k \<noteq> []"
    unfolding noLeadingRune_def
  proof (intro ballI impI notI)
    fix r assume r: "r \<in> set whiteSpace" "r \<noteq> []" "prefix r (k @ '' '')"
    have "\<not> prefix r k"
      using assms r(1,2) by (auto simp: trimmed_def noLeadingRune_def)
    then have "r = k @ '' ''"
      using r(3) by (auto simp: prefix_snoc)
    then have "last r = CHR '' ''" by simp
    then have "r = '' ''"
      using whiteSpace_last_space r(1) by blast
    with \<open>r = k @ '' ''\<close> that show False by simp
  qed
  have left: "trimLeftRunes whiteSpace (k @ '' '') = (if k = [] then [] else k @ '' '')"
  proof (cases "k = []")
    case True
    obtain r where r: "r \<in> set whiteSpace" "r \<noteq> []" "prefix r '' ''"
      and step: "trimLeftRunes whiteSpace '' '' = trimLeftRunes whiteSpace (drop (length r) '' '')"
      using trimLeftRunes_step [of "'' ''" whiteSpace "'' ''"] space_in_whiteSpace by auto
    have "r = '' ''"
      using r(2,3) by (cases r) auto
    then have "trimLeftRunes whiteSpace '' '' = trimLeftRunes whiteSpace []"
      using step by simp
    also have "\<dots> = []"
      by (rule trimLeftRunes_id) (simp add: noLeadingRune_def)
    finally show ?thesis using True by simp
  next
    case False
    then show ?thesis using lead by (simp add: trimLeftRunes_id)
  qed
  have right: "trimRightRunes whiteSpace (k @ '' '') = k"
  proof -
    obtain r where r: "r \<in> set (map rev whiteSpace)" "r \<noteq> []" "prefix r (CHR '' '' # rev k)"
      and step: "trimLeftRunes (map rev whiteSpace) (CHR '' '' # rev k)
        = trimLeftRunes (map rev whiteSpace) (drop (length r) (CHR '' '' # rev k))"
      using trimLeftRunes_step [of "'' ''" "map rev whiteSpace" "CHR '' '' # rev k"]
        space_in_whiteSpace by force
    obtain w where w: "w \<in> set whiteSpace" "r = rev w"
      using r(1) by auto
    have "hd r = CHR '' ''"
      using r(2,3) by (cases r) auto
    then have "last w = CHR '' ''"
      using w(2) r(2) by (simp add: hd_rev)
    then have "w = '' ''"
      using whiteSpace_last_space w(1) by blast
    then have "trimLeftRunes (map rev whiteSpace) (CHR '' '' # rev k)
        = trimLeftRunes (map rev whiteSpace) (rev k)"
      using step w(2) by simp
    also have "\<dots> = rev k"
      using assms by (simp add: trimLeftRunes_id trimmed_def noTrailingRune_rev)
    finally show ?thesis
      by (simp add: trimRightRunes_def)
  qed
  show ?thesis
  proof (cases "k = []")
    case True
    then show ?thesis
      using left by (simp add: TrimSpace_def trimRightRunes_def trimLeftRunes_id noLeadingRune_def)
  next
    case False
    then show ?thesis
      using left right by (simp add: TrimSpace_def)
  qed
qed

lemma trimmed_no_trailing_CR: "trimmed s \<Longrightarrow> s \<noteq> [] \<Longrightarrow> last s \<noteq> CHR 0x0D"
proof
  assume t: "trimmed s" and "s \<noteq> []" and "last s = CHR 0x0D"
  then have "suffix [CHR 0x0D] s"
    by (metis append_butlast_last_id suffixI)
  moreover have "[CHR 0x0D] \<in> set whiteSpace" by (simp add: whiteSpace_def)
  ultimately show False
    using t by (auto simp: trimmed_def noTrailingRune_def)
qed

lemma Split_not_Nil: "Split s sep \<noteq> []"
  by (induction s) (auto split: list.splits)

lemma Split_no_sep: "sep \<notin> set s \<Longrightarrow> Split s sep = [s]"
  by (induction s) auto


lemma Split_append_sep: "sep \<notin> set a \<Longrightarrow> Split (a @ sep # b) sep = a # Split b sep"
  by (induction a) auto

lemma Split_length: "2 \<le> length (Split s sep) \<longleftrightarrow> sep \<in> set s"
proof
  assume "2 \<le> length (Split s sep)"
  then show "sep \<in> set s"
    using Split_no_sep [of sep s] by (cases "sep \<in> set s") auto
next
  assume "sep \<in> set s"
  then obtain a b where "s = a @ sep # b" and "sep \<notin> set a"
    by (meson split_list_first)
  then show "2 \<le> length (Split s sep)"
    using Split_not_Nil [of b sep] by (cases "Split b sep") (auto simp: Split_append_sep)
qed

lemma Split_join: "hd (Split s sep) @ concat (map ((#) sep) (tl (Split s sep))) = s"
proof (induction s)
  case Nil
  then show ?case by simp
next
  case (Cons c cs)
  then show ?case
    using Split_not_Nil [of cs sep] by (cases "Split cs sep") auto
qed

lemma appendItems_concat: "appendItems v items = v @ concat (map ((#) (CHR ''='')) items)"
  by (induction items arbitrary: v) auto


section \<open>The configuration file read, written and read again\<close>

text \<open>
  What \<^const>\<open>getKeyValues\<close> makes of one line, and the entries it keeps: every key and
  value is trimmed, no key holds a \<^verbatim>\<open>=\<close>, and the keys of the map are those of the list.
\<close>

definition parseLine :: "string \<Rightarrow> (string \<times> string) option" where
  "parseLine line =
     (let keyValue = Split line (CHR ''='')
      in if 2 \<le> length keyValue
         then Some (TrimSpace (keyValue ! 0),
                    TrimSpace (appendItems (keyValue ! 1) (drop 2 keyValue)))
         else None)"

lemma getKeyValues_loop_step:
  "getKeyValues_loop m ks (line # lines) =
     (case parseLine line of
        None \<Rightarrow> getKeyValues_loop m ks lines
      | Some (k, v) \<Rightarrow> getKeyValues_loop (m(k \<mapsto> v)) (ks @ [k]) lines)"
  by (simp add: parseLine_def Let_def)

declare getKeyValues_loop.simps(2) [simp del]

lemma parseLine_None: "CHR ''='' \<notin> set line \<Longrightarrow> parseLine line = None"
  using Split_length [of line "CHR ''=''"] by (simp add: parseLine_def Let_def)

lemma parseLine_Some:
  assumes "CHR ''='' \<notin> set a"
  shows "parseLine (a @ CHR ''='' # b) = Some (TrimSpace a, TrimSpace b)"
proof -
  let ?kv = "Split (a @ CHR ''='' # b) (CHR ''='')"
  have kv: "?kv = a # Split b (CHR ''='')"
    using assms by (rule Split_append_sep)
  obtain x xs where b: "Split b (CHR ''='') = x # xs"
    using Split_not_Nil [of b "CHR ''=''"] by (cases "Split b (CHR ''='')") auto
  have "appendItems (?kv ! 1) (drop 2 ?kv) = x @ concat (map ((#) (CHR ''='')) xs)"
    by (simp add: kv b appendItems_concat)
  also have "\<dots> = b"
    using Split_join [of b "CHR ''=''"] by (simp add: b)
  finally have "appendItems (?kv ! 1) (drop 2 ?kv) = b" .
  moreover have "2 \<le> length ?kv" by (simp add: kv b)
  moreover have "?kv ! 0 = a" by (simp add: kv)
  ultimately show ?thesis
    by (simp add: parseLine_def Let_def)
qed

lemma parseLine_cases:
  assumes "parseLine line = Some (k, v)"
  shows "trimmed k \<and> trimmed v \<and> CHR ''='' \<notin> set k \<and> set k \<subseteq> set line \<and> set v \<subseteq> set line"
proof -
  have "CHR ''='' \<in> set line"
    using assms parseLine_None by fastforce
  then obtain a b where line: "line = a @ CHR ''='' # b" and a: "CHR ''='' \<notin> set a"
    by (meson split_list_first)
  have kv: "k = TrimSpace a" "v = TrimSpace b"
    using assms parseLine_Some [OF a, of b] by (simp_all add: line)
  show ?thesis
    using set_TrimSpace [of a] set_TrimSpace [of b] a
    by (auto simp: kv line TrimSpace_trimmed)
qed

lemma parseLine_export:
  assumes "trimmed k" and "trimmed v" and "CHR ''='' \<notin> set k"
  shows "parseLine (k @ '' = '' @ v) = Some (k, v)"
proof -
  have "parseLine ((k @ '' '') @ CHR ''='' # (CHR '' '' # v))
      = Some (TrimSpace (k @ '' ''), TrimSpace (CHR '' '' # v))"
    using assms(3) by (intro parseLine_Some) simp
  then show ?thesis
    using assms by (simp add: TrimSpace_snoc_space TrimSpace_space_Cons)
qed

definition wellKept :: "(string \<Rightarrow> string option) \<Rightarrow> string list \<Rightarrow> bool" where
  "wellKept m ks \<longleftrightarrow>
     dom m = set ks \<and>
     (\<forall>k v. m k = Some v \<longrightarrow>
        trimmed k \<and> trimmed v \<and> CHR ''='' \<notin> set k \<and> CHR 0x0A \<notin> set k \<and> CHR 0x0A \<notin> set v)"

lemma getKeyValues_loop_wellKept:
  assumes "\<forall>line \<in> set lines. CHR 0x0A \<notin> set line"
    and "wellKept m ks"
    and "getKeyValues_loop m ks lines = (m', ks')"
  shows "wellKept m' ks'"
  using assms
proof (induction lines arbitrary: m ks)
  case Nil
  then show ?case by simp
next
  case (Cons line lines)
  show ?case
  proof (cases "parseLine line")
    case None
    then show ?thesis
      using Cons by (simp add: getKeyValues_loop_step)
  next
    case (Some kv)
    obtain k v where kv: "kv = (k, v)" by (cases kv)
    have p: "trimmed k \<and> trimmed v \<and> CHR ''='' \<notin> set k \<and> set k \<subseteq> set line \<and> set v \<subseteq> set line"
      using parseLine_cases Some kv by blast
    have nl: "CHR 0x0A \<notin> set line" using Cons.prems(1) by simp
    have "wellKept (m(k \<mapsto> v)) (ks @ [k])"
      using Cons.prems(2) p nl unfolding wellKept_def by auto
    moreover have "getKeyValues_loop (m(k \<mapsto> v)) (ks @ [k]) lines = (m', ks')"
      using Cons.prems(3) Some kv by (simp add: getKeyValues_loop_step)
    ultimately show ?thesis
      using Cons.IH Cons.prems(1) by simp
  qed
qed

lemma exportKeyValues_loop_concat:
  "exportKeyValues_loop m result keys =
     result @ concat (map (\<lambda>k. (k @ '' = '' @ (case m k of None \<Rightarrow> [] | Some v \<Rightarrow> v))
                              @ [CHR 0x0D, CHR 0x0A]) keys)"
  by (induction keys arbitrary: result) auto

lemma Split_lines:
  assumes "\<forall>l \<in> set ls. CHR 0x0A \<notin> set l"
  shows "Split (concat (map (\<lambda>l. l @ [CHR 0x0D, CHR 0x0A]) ls)) (CHR 0x0A)
     = map (\<lambda>l. l @ [CHR 0x0D]) ls @ [[]]"
  using assms
proof (induction ls)
  case Nil
  then show ?case by simp
next
  case (Cons l ls)
  have "Split ((l @ [CHR 0x0D]) @ CHR 0x0A # concat (map (\<lambda>l. l @ [CHR 0x0D, CHR 0x0A]) ls)) (CHR 0x0A)
      = (l @ [CHR 0x0D]) # Split (concat (map (\<lambda>l. l @ [CHR 0x0D, CHR 0x0A]) ls)) (CHR 0x0A)"
    using Cons.prems by (intro Split_append_sep) simp
  then show ?case
    using Cons by simp
qed

lemma ScanLines_lines:
  assumes "\<forall>l \<in> set ls. CHR 0x0A \<notin> set l"
  shows "ScanLines (concat (map (\<lambda>l. l @ [CHR 0x0D, CHR 0x0A]) ls)) = ls"
proof -
  have "map dropCR (map (\<lambda>l. l @ [CHR 0x0D]) ls) = ls"
    by (induction ls) (auto simp: dropCR_def)
  then show ?thesis
    using Split_lines [OF assms] by (simp add: ScanLines_def Let_def)
qed

lemma getKeyValues_loop_exported:
  assumes "\<forall>k \<in> set keys. trimmed k \<and> trimmed (f k) \<and> CHR ''='' \<notin> set k"
  shows "getKeyValues_loop m ks (map (\<lambda>k. k @ '' = '' @ f k) keys)
     = ((\<lambda>x. if x \<in> set keys then Some (f x) else m x), ks @ keys)"
  using assms
proof (induction keys arbitrary: m ks)
  case Nil
  then show ?case by simp
next
  case (Cons k keys)
  have "parseLine (k @ '' = '' @ f k) = Some (k, f k)"
    using Cons.prems by (intro parseLine_export) auto
  then have "getKeyValues_loop m ks (map (\<lambda>k. k @ '' = '' @ f k) (k # keys))
      = getKeyValues_loop (m(k \<mapsto> f k)) (ks @ [k]) (map (\<lambda>k. k @ '' = '' @ f k) keys)"
    by (simp add: getKeyValues_loop_step)
  also have "\<dots> = ((\<lambda>x. if x \<in> set keys then Some (f x) else (m(k \<mapsto> f k)) x), (ks @ [k]) @ keys)"
    using Cons.prems by (intro Cons.IH) auto
  also have "\<dots> = ((\<lambda>x. if x \<in> set (k # keys) then Some (f x) else m x), ks @ k # keys)"
    by (auto simp: fun_eq_iff)
  finally show ?case .
qed

text \<open>
  Claim C8. For every list of configuration lines (strings without a line feed), parse
  them with \<^const>\<open>getKeyValues\<close>, write the keys and the map with \<^const>\<open>exportKeyValues\<close>,
  and parse the lines of the text that was written: the result is the same map, for every
  key, and the same list of keys.
\<close>

theorem getKeyValues_roundtrip:
  assumes "\<forall>line \<in> set lines. CHR 0x0A \<notin> set line"
    and "getKeyValues lines = (keyValues, keys)"
  shows "getKeyValues (ScanLines (exportKeyValues keyValues keys)) = (keyValues, keys)"
proof -
  let ?f = "\<lambda>k. case keyValues k of None \<Rightarrow> [] | Some v \<Rightarrow> v"
  let ?out = "map (\<lambda>k. k @ '' = '' @ ?f k) keys"
  have kept: "wellKept keyValues keys"
    using getKeyValues_loop_wellKept [OF assms(1), of Map.empty "[]" keyValues keys] assms(2)
    by (simp add: getKeyValues_def wellKept_def)
  then have each: "\<forall>k \<in> set keys. trimmed k \<and> trimmed (?f k) \<and> CHR ''='' \<notin> set k
      \<and> CHR 0x0A \<notin> set k \<and> CHR 0x0A \<notin> set (?f k)"
    unfolding wellKept_def by (auto split: option.splits)
  have "exportKeyValues keyValues keys = concat (map (\<lambda>l. l @ [CHR 0x0D, CHR 0x0A]) ?out)"
    by (simp add: exportKeyValues_def exportKeyValues_loop_concat comp_def)
  moreover have "\<forall>l \<in> set ?out. CHR 0x0A \<notin> set l"
    using each by auto
  ultimately have "ScanLines (exportKeyValues keyValues keys) = ?out"
    using ScanLines_lines [of ?out] by (simp only:)
  then have "getKeyValues (ScanLines (exportKeyValues keyValues keys))
      = ((\<lambda>x. if x \<in> set keys then Some (?f x) else None), keys)"
    using getKeyValues_loop_exported [of keys ?f Map.empty "[]"] each
    by (simp add: getKeyValues_def)
  moreover have "(\<lambda>x. if x \<in> set keys then Some (?f x) else None) = keyValues"
    using kept unfolding wellKept_def by (auto simp: fun_eq_iff split: option.splits)
  ultimately show ?thesis by simp
qed

theorem getKeyValues_roundtrip_witness:
  "getKeyValues [''listen = 0.0.0.0:8080'', ''no key'', ''k= v = w '', ''listen=:80'']
     = ([''listen'' \<mapsto> ''0.0.0.0:8080'', ''k'' \<mapsto> ''v = w'', ''listen'' \<mapsto> '':80''],
        [''listen'', ''k'', ''listen''])
   \<and> exportKeyValues
        [''listen'' \<mapsto> ''0.0.0.0:8080'', ''k'' \<mapsto> ''v = w'', ''listen'' \<mapsto> '':80'']
        [''listen'', ''k'', ''listen'']
     = ''listen = :80'' @ [CHR 0x0D, CHR 0x0A] @ ''k = v = w'' @ [CHR 0x0D, CHR 0x0A]
       @ ''listen = :80'' @ [CHR 0x0D, CHR 0x0A]
   \<and> getKeyValues (ScanLines (exportKeyValues
        [''listen'' \<mapsto> ''0.0.0.0:8080'', ''k'' \<mapsto> ''v = w'', ''listen'' \<mapsto> '':80'']
        [''listen'', ''k'', ''listen'']))
     = ([''listen'' \<mapsto> ''0.0.0.0:8080'', ''k'' \<mapsto> ''v = w'', ''listen'' \<mapsto> '':80''],
        [''listen'', ''k'', ''listen''])"
proof -
  let ?lines = "[''listen = 0.0.0.0:8080'', ''no key'', ''k= v = w '', ''listen=:80'']"
  let ?m = "[''listen'' \<mapsto> ''0.0.0.0:8080'', ''k'' \<mapsto> ''v = w'', ''listen'' \<mapsto> '':80'']"
  let ?keys = "[''listen'', ''k'', ''listen'']"
  have lf: "\<forall>line \<in> set ?lines. CHR 0x0A \<notin> set line"
    by simp
  have parsed: "getKeyValues ?lines = (?m, ?keys)"
    by (simp add: getKeyValues_def getKeyValues_loop.simps TrimSpace_def trimRightRunes_def
        whiteSpace_def trimLeftRunes.simps)
      (simp add: Let_def)
  have out: "exportKeyValues ?m ?keys
     = ''listen = :80'' @ [CHR 0x0D, CHR 0x0A] @ ''k = v = w'' @ [CHR 0x0D, CHR 0x0A]
       @ ''listen = :80'' @ [CHR 0x0D, CHR 0x0A]"
    by (simp add: exportKeyValues_def)
  show ?thesis
    using getKeyValues_roundtrip [OF lf parsed] parsed out by simp
qed

section \<open>The hosts files and the lookup\<close>

text \<open>
  What the second loop of \<^verbatim>\<open>readHosts\<close> makes of one line: the entry it stores, if
  any. A later line for the same domain overwrites an earlier one.
\<close>

definition hostsEntry :: "string \<Rightarrow> (string \<times> string) option" where
  "hostsEntry host =
     (let items = Split host (CHR '' '')
      in if 2 \<le> length items \<and> TrimSpace (items ! 0) \<noteq> [] \<and> TrimSpace (items ! 1) \<noteq> []
         then Some (TrimSpace (items ! 0), TrimSpace (items ! 1))
         else None)"

lemma readHosts_loop_step:
  "readHosts_loop hostsCache (host # hosts) =
     readHosts_loop
       (case hostsEntry host of None \<Rightarrow> hostsCache | Some (domain, ip) \<Rightarrow> hostsCache(domain \<mapsto> ip))
       hosts"
  by (simp add: hostsEntry_def Let_def)

declare readHosts_loop.simps(2) [simp del]




lemma readHosts_loop_dom:
  "readHosts_loop hostsCache hosts domain = Some ip
    \<Longrightarrow> hostsCache domain = Some ip \<or> (\<exists>h \<in> set hosts. hostsEntry h = Some (domain, ip))"
proof (induction hosts arbitrary: hostsCache)
  case Nil
  then show ?case by simp
next
  case (Cons h hosts)
  show ?case
  proof (cases "hostsEntry h")
    case None
    then show ?thesis
      using Cons by (auto simp: readHosts_loop_step)
  next
    case (Some e)
    obtain d i where e: "e = (d, i)" by (cases e)
    have "readHosts_loop (hostsCache(d \<mapsto> i)) hosts domain = Some ip"
      using Cons.prems Some e by (simp add: readHosts_loop_step)
    then have "(hostsCache(d \<mapsto> i)) domain = Some ip
        \<or> (\<exists>h \<in> set hosts. hostsEntry h = Some (domain, ip))"
      by (rule Cons.IH)
    then show ?thesis
      using Some e by (auto split: if_splits)
  qed
qed

subsection \<open>Lower case\<close>


























end
